theory Spec2Isabelle
  imports Main "HOL-Library.Signed_Division" "HOL-Library.Monad_Syntax"
begin

section \<open>The day-of-year program of \<^verbatim>\<open>linyifan_day_of_year.cpp\<close>\<close>

subsection \<open>C++ \<open>int\<close> arithmetic\<close>

text \<open>
  The variables \<open>y\<close>, \<open>m\<close>, \<open>d\<close>, \<open>i\<close>, \<open>sum\<close> and the entries of \<open>month\<close> are C++
  \<open>int\<close>s (32 bits, two's complement). They are modelled as HOL integers together with
  the range predicate \<open>is_int\<close>. A signed addition whose mathematical result leaves the
  range is undefined behaviour in C++; it is the value \<open>None\<close> here. The operator \<open>%\<close>
  truncates towards zero: it is \<open>smod\<close>, where \<open>k smod l = sgn k * (\<bar>k\<bar> mod \<bar>l\<bar>)\<close>.
\<close>

definition INT_MIN :: int where
  "INT_MIN = - 2147483648"

definition INT_MAX :: int where
  "INT_MAX = 2147483647"

definition is_int :: "int \<Rightarrow> bool" where
  "is_int x \<longleftrightarrow> INT_MIN \<le> x \<and> x \<le> INT_MAX"

definition add_int :: "int \<Rightarrow> int \<Rightarrow> int option" where
  "add_int a b = (if is_int (a + b) then Some (a + b) else None)"

subsection \<open>The globals\<close>

text \<open>
  \<^verbatim>\<open>int sum;\<close> and
  \<^verbatim>\<open>int month[15]={0,31,28,31,30,31,30,31,31,30,31,30,31};\<close>
  Both have static storage: \<open>sum\<close> starts at 0, and the two entries of \<open>month\<close> that
  the thirteen initialisers do not reach (indices 13 and 14) are 0.
\<close>

record globals =
  sum_var :: int
  month :: "int list"

definition initial_globals :: globals where
  "initial_globals =
     \<lparr>sum_var = 0, month = [0, 31, 28, 31, 30, 31, 30, 31, 31, 30, 31, 30, 31, 0, 0]\<rparr>"

text \<open>
  \<open>month[i]\<close>: a read or a write outside the array is undefined behaviour, the value
  \<open>None\<close>.
\<close>

definition month_at :: "int list \<Rightarrow> int \<Rightarrow> int option" where
  "month_at tbl i = (if 0 \<le> i \<and> i < int (length tbl) then Some (tbl ! nat i) else None)"

definition month_store :: "int list \<Rightarrow> int \<Rightarrow> int \<Rightarrow> int list option" where
  "month_store tbl i v =
     (if 0 \<le> i \<and> i < int (length tbl) then Some (tbl[nat i := v]) else None)"

subsection \<open>The statements of \<open>main\<close>\<close>

text \<open>The condition of the first \<open>if\<close>: \<^verbatim>\<open>y%4==0&&(y%100>0||y%400==0)\<close>.\<close>

definition leap_cond :: "int \<Rightarrow> bool" where
  "leap_cond y \<longleftrightarrow> y smod 4 = 0 \<and> (y smod 100 > 0 \<or> y smod 400 = 0)"

text \<open>\<^verbatim>\<open>if(...){ month[2]+=1; }\<close>\<close>

definition leap_adjust :: "int \<Rightarrow> globals \<Rightarrow> globals option" where
  "leap_adjust y g =
     (if leap_cond y then do {
        v \<leftarrow> month_at (month g) 2;
        v' \<leftarrow> add_int v 1;
        tbl \<leftarrow> month_store (month g) 2 v';
        Some (g\<lparr>month := tbl\<rparr>)
      } else Some g)"

text \<open>
  \<^verbatim>\<open>for(int i=1;i<m;i++){ sum+=month[i]; }\<close>, started at the loop variable \<open>i\<close>.
\<close>

function sum_months :: "int \<Rightarrow> int \<Rightarrow> globals \<Rightarrow> globals option" where
  "sum_months m i g =
     (if i < m then
        (case month_at (month g) i of
           None \<Rightarrow> None
         | Some v \<Rightarrow>
             (case add_int (sum_var g) v of
                None \<Rightarrow> None
              | Some s \<Rightarrow>
                  (case add_int i 1 of
                     None \<Rightarrow> None
                   | Some i' \<Rightarrow> sum_months m i' (g\<lparr>sum_var := s\<rparr>))))
      else Some g)"
  by pat_completeness auto
termination
  by (relation "measure (\<lambda>(m, i, g). nat (m - i))")
    (auto simp: add_int_def split: if_splits)

declare sum_months.simps [simp del]

text \<open>
  \<^verbatim>\<open>if(d>=month[m]){ sum+=month[m]; }else{ sum+=d; }\<close>
  The tag tells which branch ran.
\<close>

datatype branch = Overflow_branch | Else_branch

definition day_branch :: "int \<Rightarrow> int \<Rightarrow> globals \<Rightarrow> branch option" where
  "day_branch m d g = do {
     ml \<leftarrow> month_at (month g) m;
     Some (if d \<ge> ml then Overflow_branch else Else_branch)
   }"

definition add_day :: "int \<Rightarrow> int \<Rightarrow> globals \<Rightarrow> globals option" where
  "add_day m d g = do {
     b \<leftarrow> day_branch m d g;
     (case b of
        Overflow_branch \<Rightarrow> do {
          ml \<leftarrow> month_at (month g) m;
          s \<leftarrow> add_int (sum_var g) ml;
          Some (g\<lparr>sum_var := s\<rparr>)
        }
      | Else_branch \<Rightarrow> do {
          s \<leftarrow> add_int (sum_var g) d;
          Some (g\<lparr>sum_var := s\<rparr>)
        })
   }"

text \<open>
  \<open>main\<close> on the values \<open>y\<close>, \<open>m\<close>, \<open>d\<close> that \<^verbatim>\<open>cin>>y>>m>>d\<close> stored, from the
  globals \<open>g\<close>: the number written by \<^verbatim>\<open>cout<<sum\<close> and the globals at the end.
\<close>

definition main :: "globals \<Rightarrow> int \<Rightarrow> int \<Rightarrow> int \<Rightarrow> (int \<times> globals) option" where
  "main g y m d = do {
     g1 \<leftarrow> leap_adjust y g;
     g2 \<leftarrow> sum_months m 1 g1;
     g3 \<leftarrow> add_day m d g2;
     Some (sum_var g3, g3)
   }"

text \<open>One run of the program: \<open>main\<close> from the statically initialised globals.\<close>

definition compute :: "int \<Rightarrow> int \<Rightarrow> int \<Rightarrow> int option" where
  "compute y m d = map_option fst (main initial_globals y m d)"

text \<open>
  Which branch of the last \<open>if\<close> a run takes: the statements of \<open>main\<close> up to the test
  \<^verbatim>\<open>d>=month[m]\<close>, from the initial globals.
\<close>

definition branch_taken :: "int \<Rightarrow> int \<Rightarrow> int \<Rightarrow> branch option" where
  "branch_taken y m d = do {
     g1 \<leftarrow> leap_adjust y initial_globals;
     g2 \<leftarrow> sum_months m 1 g1;
     day_branch m d g2
   }"

subsection \<open>What a run may print\<close>


section \<open>Reference definitions, in the specification's words\<close>

text \<open>
  What the program is compared with. \<open>spec_isLeap\<close> is the leap-year rule of the
  specification, \<^verbatim>\<open>year % 4 == 0 AND (year % 100 != 0 OR year % 400 == 0)\<close>.
  \<open>daysIn mo leap\<close> is the Gregorian length of month \<open>mo\<close> (1 to 12; 0 for any other
  number) in a leap or a common year, \<open>days_before mo leap\<close> the sum of the lengths of
  the months strictly before \<open>mo\<close>, and \<open>spec_ordinal\<close> the conventional ordinal
  day-of-year: the days before the month plus the day.
\<close>

definition spec_isLeap :: "int \<Rightarrow> bool" where
  "spec_isLeap year \<longleftrightarrow> year smod 4 = 0 \<and> (year smod 100 \<noteq> 0 \<or> year smod 400 = 0)"

definition daysIn :: "int \<Rightarrow> bool \<Rightarrow> int" where
  "daysIn mo leap =
     (if mo = 2 then (if leap then 29 else 28)
      else if mo = 4 \<or> mo = 6 \<or> mo = 9 \<or> mo = 11 then 30
      else if 1 \<le> mo \<and> mo \<le> 12 then 31
      else 0)"

definition days_before :: "int \<Rightarrow> bool \<Rightarrow> int" where
  "days_before mo leap = (\<Sum>k\<leftarrow>[1..mo - 1]. daysIn k leap)"

definition spec_ordinal :: "int \<Rightarrow> int \<Rightarrow> int \<Rightarrow> int" where
  "spec_ordinal year mo day = days_before mo (spec_isLeap year) + day"

text \<open>The number of days of a year: the lengths of its twelve months.\<close>

definition spec_days_in_year :: "int \<Rightarrow> int" where
  "spec_days_in_year year = days_before 13 (spec_isLeap year)"

text \<open>
  The contents of \<open>month\<close> that the claims describe: the initial table, with 29 in the
  February entry for a leap year.
\<close>

definition adjusted_table :: "bool \<Rightarrow> int list" where
  "adjusted_table leap = [0, 31, if leap then 29 else 28, 31, 30, 31, 30, 31, 31, 30, 31, 30, 31, 0, 0]"

section \<open>Lemmas\<close>

subsection \<open>Unfolding\<close>

lemmas int_defs = add_int_def is_int_def INT_MIN_def INT_MAX_def

lemmas table_defs = month_at_def month_store_def

lemmas main_defs = compute_def main_def initial_globals_def leap_adjust_def leap_cond_def
  add_day_def day_branch_def signed_modulo_int_def

subsection \<open>The statements, one by one\<close>

lemma leap_adjust_initial:
  "leap_adjust y initial_globals = Some \<lparr>sum_var = 0, month = adjusted_table (leap_cond y)\<rparr>"
  by (simp add: leap_adjust_def initial_globals_def adjusted_table_def int_defs table_defs)

lemma sum_months_month:
  "sum_months m i g = Some g' \<Longrightarrow> month g' = month g"
proof (induction m i g rule: sum_months.induct)
  case (1 m i g)
  show ?case
  proof (cases "i < m")
    case False
    with "1.prems" show ?thesis by (simp add: sum_months.simps)
  next
    case True
    with "1.prems" obtain v s i' where
      v: "month_at (month g) i = Some v" and s: "add_int (sum_var g) v = Some s"
      and i': "add_int i 1 = Some i'" and rec: "sum_months m i' (g\<lparr>sum_var := s\<rparr>) = Some g'"
      by (subst (asm) sum_months.simps) (auto split: option.splits)
    from "1.IH" [OF True v s i' rec] show ?thesis by simp
  qed
qed

lemma sum_months_sum:
  "sum_months m i g = Some g' \<Longrightarrow>
     sum_var g' = sum_var g + (\<Sum>k\<leftarrow>[i..m - 1]. month g ! nat k)"
proof (induction m i g rule: sum_months.induct)
  case (1 m i g)
  show ?case
  proof (cases "i < m")
    case False
    with "1.prems" show ?thesis by (simp add: sum_months.simps)
  next
    case True
    with "1.prems" obtain v s i' where
      v: "month_at (month g) i = Some v" and s: "add_int (sum_var g) v = Some s"
      and i': "add_int i 1 = Some i'" and rec: "sum_months m i' (g\<lparr>sum_var := s\<rparr>) = Some g'"
      by (subst (asm) sum_months.simps) (auto split: option.splits)
    from v have vv: "v = month g ! nat i" by (auto simp: month_at_def split: if_splits)
    from s have ss: "s = sum_var g + v" by (auto simp: add_int_def split: if_splits)
    from i' have ii: "i' = i + 1" by (auto simp: add_int_def split: if_splits)
    from True have "[i..m - 1] = i # [i + 1..m - 1]" by (simp add: upto_rec1)
    with "1.IH" [OF True v s i' rec] vv ss ii show ?thesis by simp
  qed
qed

lemma add_day_month:
  "add_day m d g = Some g' \<Longrightarrow> month g' = month g"
  by (auto simp: add_day_def split: Option.bind_splits branch.splits)

lemma month_range_cases:
  assumes "1 \<le> m" "m \<le> 12"
  shows "m = 1 \<or> m = 2 \<or> m = 3 \<or> m = 4 \<or> m = 5 \<or> m = 6 \<or> m = 7 \<or> m = 8 \<or> m = 9 \<or> m = 10
    \<or> m = 11 \<or> m = (12::int)"
  using assms by arith

lemma sum_months_adjusted:
  assumes "1 \<le> m" "m \<le> 12"
  shows "sum_months m 1 \<lparr>sum_var = 0, month = adjusted_table leap\<rparr> =
    Some \<lparr>sum_var = days_before m leap, month = adjusted_table leap\<rparr>"
  using month_range_cases [OF assms]
  by (elim disjE; cases leap)
    (simp_all add: sum_months.simps adjusted_table_def days_before_def daysIn_def int_defs
      table_defs upto_rec1)

lemma month_at_adjusted:
  assumes "1 \<le> m" "m \<le> 12"
  shows "month_at (adjusted_table leap) m = Some (daysIn m leap)"
  using month_range_cases [OF assms]
  by (elim disjE) (simp_all add: adjusted_table_def daysIn_def month_at_def)

lemma days_before_bounds:
  assumes "1 \<le> m" "m \<le> 12"
  shows "0 \<le> days_before m leap" and "days_before m leap + daysIn m leap \<le> 366"
    and "1 \<le> daysIn m leap"
  using month_range_cases [OF assms]
  by (auto simp: days_before_def daysIn_def upto_rec1)

lemma branch_taken_eq:
  assumes "1 \<le> m" "m \<le> 12"
  shows "branch_taken y m d =
    Some (if daysIn m (leap_cond y) \<le> d then Overflow_branch else Else_branch)"
  by (simp add: branch_taken_def leap_adjust_initial sum_months_adjusted [OF assms]
      day_branch_def month_at_adjusted [OF assms])

lemma main_overflow_case:
  assumes "1 \<le> m" "m \<le> 12" "daysIn m (leap_cond y) \<le> d"
  shows "main initial_globals y m d =
    Some (days_before m (leap_cond y) + daysIn m (leap_cond y),
      \<lparr>sum_var = days_before m (leap_cond y) + daysIn m (leap_cond y),
       month = adjusted_table (leap_cond y)\<rparr>)"
  using days_before_bounds [OF assms(1,2), of "leap_cond y"] assms(3)
  by (simp add: main_def leap_adjust_initial sum_months_adjusted [OF assms(1,2)] add_day_def
      day_branch_def month_at_adjusted [OF assms(1,2)] int_defs)

lemma compute_overflow_case:
  assumes "1 \<le> m" "m \<le> 12" "daysIn m (leap_cond y) \<le> d"
  shows "compute y m d = Some (days_before m (leap_cond y) + daysIn m (leap_cond y))"
  by (simp add: compute_def main_overflow_case [OF assms])

lemma compute_else_case:
  assumes "1 \<le> m" "m \<le> 12" "d < daysIn m (leap_cond y)"
  shows "compute y m d = add_int (days_before m (leap_cond y)) d"
  using assms(3)
  by (simp add: compute_def main_def leap_adjust_initial sum_months_adjusted [OF assms(1,2)]
      add_day_def day_branch_def month_at_adjusted [OF assms(1,2)] add_int_def)

lemma compute_else_in_range:
  assumes "1 \<le> m" "m \<le> 12" "d < daysIn m (leap_cond y)" "INT_MIN \<le> d"
  shows "compute y m d = Some (days_before m (leap_cond y) + d)"
  using days_before_bounds [OF assms(1,2), of "leap_cond y"] assms(3,4)
  by (simp add: compute_else_case [OF assms(1-3)] int_defs)

subsection \<open>The leap-year test and the rule of the specification\<close>

text \<open>
  The rule of the specification is the divisibility rule, whatever the sign of the year.
  The test of the program agrees with it exactly on the years whose remainder by 100 is
  not negative, hence on every year from 0 on.
\<close>

lemma smod_eq_0_iff_dvd: "(k::int) smod l = 0 \<longleftrightarrow> l dvd k"
proof -
  have "k smod l = 0 \<longleftrightarrow> \<bar>k\<bar> mod \<bar>l\<bar> = 0"
    by (cases "k = 0") (simp_all add: signed_modulo_int_def sgn_0_0)
  also have "\<dots> \<longleftrightarrow> \<bar>l\<bar> dvd \<bar>k\<bar>" by (simp add: dvd_eq_mod_eq_0)
  finally show ?thesis by simp
qed

lemma spec_isLeap_dvd:
  "spec_isLeap y \<longleftrightarrow> 4 dvd y \<and> (\<not> 100 dvd y \<or> 400 dvd y)"
  by (simp add: spec_isLeap_def smod_eq_0_iff_dvd)

lemma smod_nonneg: "0 \<le> k \<Longrightarrow> 0 \<le> (k::int) smod 100"
  by (simp add: signed_modulo_int_def sgn_if)

lemma leap_cond_iff: "leap_cond y \<longleftrightarrow> spec_isLeap y \<and> 0 \<le> y smod 100"
proof -
  have "y smod 100 = 0" if "y smod 400 = 0"
  proof -
    from that have "400 dvd y" by (simp add: smod_eq_0_iff_dvd)
    then have "100 dvd y" by (rule dvd_trans [rotated]) simp
    then show ?thesis by (simp add: smod_eq_0_iff_dvd)
  qed
  then show ?thesis by (auto simp: leap_cond_def spec_isLeap_def)
qed

lemma leap_cond_nonneg: "0 \<le> y \<Longrightarrow> leap_cond y = spec_isLeap y"
  by (simp add: leap_cond_iff smod_nonneg)

lemma compute_closed_form:
  assumes "1 \<le> m" "m \<le> 12" "INT_MIN \<le> d"
  shows "compute y m d = Some (days_before m (leap_cond y) + min d (daysIn m (leap_cond y)))"
proof (cases "daysIn m (leap_cond y) \<le> d")
  case True
  then show ?thesis by (simp add: compute_overflow_case [OF assms(1,2)] min_def)
next
  case False
  then have "d < daysIn m (leap_cond y)" by simp
  from compute_else_in_range [OF assms(1,2) this assms(3)] False show ?thesis
    by (simp add: min_def)
qed

lemma compute_ordinal_nonneg_year:
  assumes "0 \<le> y" "1 \<le> m" "m \<le> 12" "1 \<le> d" "d \<le> daysIn m (spec_isLeap y)"
  shows "compute y m d = Some (spec_ordinal y m d)"
proof -
  have "INT_MIN \<le> d" using assms(4) by (simp add: INT_MIN_def)
  from compute_closed_form [OF assms(2,3) this, of y] assms(5) show ?thesis
    by (simp add: leap_cond_nonneg [OF assms(1)] spec_ordinal_def min_def)
qed

subsection \<open>Days above the month's length, from the year 0 on\<close>

lemma day_above_length_nonneg_year:
  assumes "0 \<le> y" "1 \<le> m" "m \<le> 12" "daysIn m (spec_isLeap y) < d"
  shows "branch_taken y m d = Some Overflow_branch"
    and "compute y m d = Some (spec_ordinal y m (daysIn m (spec_isLeap y)))"
proof -
  from assms(4) have le: "daysIn m (leap_cond y) \<le> d"
    by (simp add: leap_cond_nonneg [OF assms(1)])
  then show "branch_taken y m d = Some Overflow_branch"
    by (simp add: branch_taken_eq [OF assms(2,3)])
  from compute_overflow_case [OF assms(2,3) le]
  show "compute y m d = Some (spec_ordinal y m (daysIn m (spec_isLeap y)))"
    by (simp add: leap_cond_nonneg [OF assms(1)] spec_ordinal_def)
qed

lemma day_equal_length_nonneg_year:
  assumes "0 \<le> y" "1 \<le> m" "m \<le> 12" "d = daysIn m (spec_isLeap y)"
  shows "branch_taken y m d = Some Overflow_branch"
    and "compute y m d = Some (spec_ordinal y m d)"
proof -
  from assms(4) have le: "daysIn m (leap_cond y) \<le> d"
    by (simp add: leap_cond_nonneg [OF assms(1)])
  then show "branch_taken y m d = Some Overflow_branch"
    by (simp add: branch_taken_eq [OF assms(2,3)])
  from compute_overflow_case [OF assms(2,3) le] assms(4)
  show "compute y m d = Some (spec_ordinal y m d)"
    by (simp add: leap_cond_nonneg [OF assms(1)] spec_ordinal_def)
qed

subsection \<open>The table, from the year 0 on\<close>

lemma table_nonneg_year:
  assumes "0 \<le> y"
  shows "leap_adjust y initial_globals
    = Some \<lparr>sum_var = 0, month = adjusted_table (spec_isLeap y)\<rparr>"
  by (simp add: leap_adjust_initial leap_cond_nonneg [OF assms])

lemma table_unchanged:
  assumes "leap_adjust y initial_globals = Some g1" "sum_months m 1 g1 = Some g2"
    "add_day m d g2 = Some g3"
  shows "month g2 = month g1" and "month g3 = month g1"
proof -
  from assms(2) show "month g2 = month g1" by (rule sum_months_month)
  with add_day_month [OF assms(3)] show "month g3 = month g1" by simp
qed

subsection \<open>The months 0, 13 and 14, and the months outside the table\<close>

lemma sum_months_past_december:
  assumes "m = 13 \<or> m = 14"
  shows "sum_months m 1 \<lparr>sum_var = 0, month = adjusted_table leap\<rparr> =
    Some \<lparr>sum_var = (if leap then 366 else 365), month = adjusted_table leap\<rparr>"
  using assms
  by (elim disjE; cases leap)
    (simp_all add: sum_months.simps adjusted_table_def int_defs table_defs)

lemma days_before_13: "days_before 13 leap = (if leap then 366 else 365)"
  by (simp add: days_before_def daysIn_def upto_rec1)

lemma compute_month_13_14:
  assumes "m = 13 \<or> m = 14"
  shows "compute y m d =
    (if 0 \<le> d then Some (if leap_cond y then 366 else 365)
     else add_int (if leap_cond y then 366 else 365) d)"
proof -
  have t: "month_at (adjusted_table (leap_cond y)) m = Some 0"
    using assms by (auto simp: adjusted_table_def month_at_def)
  show ?thesis
    by (simp add: compute_def main_def leap_adjust_initial sum_months_past_december [OF assms]
        add_day_def day_branch_def t int_defs)
qed

lemma month_13_14_nonneg_year:
  assumes "0 \<le> y" "m = 13 \<or> m = 14" "0 \<le> d"
  shows "compute y m d = Some (spec_days_in_year y)"
  using assms(3)
  by (simp add: compute_month_13_14 [OF assms(2)] spec_days_in_year_def days_before_13
      leap_cond_nonneg [OF assms(1)])



lemma compute_undefined_below:
  assumes "m < 0"
  shows "compute y m d = None"
  using assms
  by (simp add: compute_def main_def leap_adjust_initial sum_months.simps add_day_def
      day_branch_def month_at_def)


section \<open>The claims\<close>

subsection \<open>Ordinal day-of-year\<close>

text \<open>
  C1. For a valid date the program should print the conventional ordinal day-of-year: the
  lengths of the months before, plus the day. It does so for every year from 0 on
  (\<open>compute_ordinal_nonneg_year\<close>). It does not for a negative leap year: for 1 March of
  the year -4 the ordinal is 31 + 29 + 1 = 61, and the program prints 60.
\<close>

theorem ordinal_fails_negative_leap_year:
  "compute (- 4) 3 1 = Some 60 \<and> spec_ordinal (- 4) 3 1 = 61"
  by (simp add: main_defs int_defs table_defs sum_months.simps spec_ordinal_def
      spec_isLeap_def days_before_def daysIn_def upto_rec1)

subsection \<open>Leap years\<close>

text \<open>
  C2. The program should treat a year as a leap year exactly when
  \<^verbatim>\<open>year % 4 == 0 AND (year % 100 != 0 OR year % 400 == 0)\<close>, negative years
  included. The year -4 satisfies the rule, and the program's test is false for it:
  \<open>-4 % 100\<close> is \<open>-4\<close>, which is not \<open>> 0\<close>.
\<close>

theorem leap_cond_negative_year:
  "spec_isLeap (- 4) \<and> \<not> leap_cond (- 4)"
  by (simp add: spec_isLeap_def leap_cond_def signed_modulo_int_def)

theorem leap_cond_negative_year_witness:
  "(- 4 :: int) smod 4 = 0 \<and> (- 4 :: int) smod 100 = - 4 \<and> spec_isLeap (- 4)
    \<and> leap_cond (- 4) = False"
  using leap_cond_negative_year by (simp add: signed_modulo_int_def)

subsection \<open>Days outside the month\<close>

text \<open>
  C3, as stated: for a day below 1 the program clamps to the month's last day. It does
  not: for the input \<open>2023 1 0\<close> it prints 0, and 31 for the last day of January.
\<close>

theorem day_below_one_clamps_counterexample:
  "compute 2023 1 0 = Some 0 \<and> compute 2023 1 31 = Some 31
    \<and> compute 2023 1 0 \<noteq> Some (days_before 1 (leap_cond 2023) + daysIn 1 (leap_cond 2023))"
  by (simp add: main_defs int_defs table_defs sum_months.simps days_before_def daysIn_def)

text \<open>
  C3, amended. For every year, every month from 1 to 12 and every day below 1 (a C++
  \<open>int\<close>), the program takes the else branch and adds the day itself: the result is the
  sum of the lengths of the months 1 to \<open>m - 1\<close> in its table, plus the day.
\<close>

theorem day_below_one_adds_day:
  assumes "1 \<le> m" "m \<le> 12" "d < 1" "is_int d"
  shows "branch_taken y m d = Some Else_branch
    \<and> compute y m d = Some (days_before m (leap_cond y) + d)"
proof -
  from days_before_bounds(3) [OF assms(1,2), of "leap_cond y"] assms(3)
  have lt: "d < daysIn m (leap_cond y)" by simp
  from assms(4) have "INT_MIN \<le> d" by (simp add: is_int_def)
  from compute_else_in_range [OF assms(1,2) lt this] lt show ?thesis
    by (simp add: branch_taken_eq [OF assms(1,2)])
qed

theorem day_below_one_adds_day_witness:
  "(1::int) \<le> 2 \<and> (2::int) \<le> 12 \<and> (- 5 :: int) < 1 \<and> is_int (- 5)
    \<and> branch_taken 2024 2 (- 5) = Some Else_branch \<and> compute 2024 2 (- 5) = Some 26"
proof -
  have h: "(1::int) \<le> 2" "(2::int) \<le> 12" "(- 5 :: int) < 1" "is_int (- 5)"
    by (simp_all add: int_defs)
  have "days_before 2 (leap_cond 2024) + (- 5) = 26"
    by (simp add: days_before_def daysIn_def)
  with day_below_one_adds_day [OF h, of 2024] h show ?thesis by simp
qed

text \<open>
  C4. For every year and every month from 1 to 12, a day greater than the month's length
  should give the ordinal day-of-year of the month's last day. The program does take the
  overflow branch and adds the month's length, and from the year 0 on the result is that
  ordinal (\<open>day_above_length_nonneg_year\<close>). In a negative leap year it is not: for the
  input \<open>-4 3 40\<close> the program prints 90, and 31 March is day 31 + 29 + 31 = 91.
\<close>

theorem clamp_above_fails_negative_leap_year:
  "branch_taken (- 4) 3 40 = Some Overflow_branch \<and> compute (- 4) 3 40 = Some 90
    \<and> spec_ordinal (- 4) 3 31 = 91"
  by (simp add: branch_taken_def main_defs int_defs table_defs sum_months.simps
      spec_ordinal_def spec_isLeap_def days_before_def daysIn_def upto_rec1)

text \<open>
  C5. For every year and every month from 1 to 12, a day equal to the month's length
  should give the correct ordinal day-of-year of that last day. The program does take
  the overflow branch, and from the year 0 on the result is that ordinal
  (\<open>day_equal_length_nonneg_year\<close>). In a negative leap year it is not: for the input
  \<open>-4 3 31\<close> the program prints 90, and 31 March is day 91; for \<open>-4 2 29\<close> it prints 59,
  and 29 February is day 60.
\<close>

theorem last_day_fails_negative_leap_year:
  "branch_taken (- 4) 3 31 = Some Overflow_branch \<and> compute (- 4) 3 31 = Some 90
    \<and> spec_ordinal (- 4) 3 31 = 91
    \<and> compute (- 4) 2 29 = Some 59 \<and> spec_ordinal (- 4) 2 29 = 60"
  by (simp add: branch_taken_def main_defs int_defs table_defs sum_months.simps
      spec_ordinal_def spec_isLeap_def days_before_def daysIn_def upto_rec1)

subsection \<open>Concrete runs\<close>

text \<open>
  C6. The program prints 61 for the input \<open>2024 3 1\<close>, 365 for \<open>2023 12 31\<close> and 366 for
  \<open>2024 12 31\<close>.
\<close>

theorem compute_scenarios:
  "compute 2024 3 1 = Some 61 \<and> compute 2023 12 31 = Some 365 \<and> compute 2024 12 31 = Some 366"
  by (simp add: main_defs int_defs table_defs sum_months.simps)

subsection \<open>Determinism\<close>




subsection \<open>The table\<close>

text \<open>
  C8. After the leap-year adjustment the February entry of the table should be 29 when
  the leap-year predicate of the specification holds for the year, and 28 otherwise. From
  the year 0 on it is (\<open>table_nonneg_year\<close>), and no statement after the adjustment
  writes the table (\<open>table_unchanged\<close>). For the year -4 the predicate holds and the
  entry is 28.
\<close>

theorem february_entry_negative_leap_year:
  "spec_isLeap (- 4)
    \<and> map_option month (leap_adjust (- 4) initial_globals)
      = Some [0, 31, 28, 31, 30, 31, 30, 31, 31, 30, 31, 30, 31, 0, 0]"
  by (simp add: spec_isLeap_def leap_adjust_def leap_cond_def initial_globals_def
      signed_modulo_int_def)

theorem february_entry_negative_leap_year_witness:
  "(- 4 :: int) smod 4 = 0 \<and> (- 4 :: int) smod 100 = - 4 \<and> spec_isLeap (- 4)
    \<and> map_option (\<lambda>g. month g ! 2) (leap_adjust (- 4) initial_globals) = Some 28"
proof -
  from february_entry_negative_leap_year
  have l: "spec_isLeap (- 4)"
    and t: "map_option month (leap_adjust (- 4) initial_globals)
      = Some [0, 31, 28, 31, 30, 31, 30, 31, 31, 30, 31, 30, 31, 0, 0]"
    by blast+
  from t have "map_option (\<lambda>g. month g ! 2) (leap_adjust (- 4) initial_globals) = Some 28"
    by (cases "leap_adjust (- 4) initial_globals") auto
  with l show ?thesis by (simp add: signed_modulo_int_def)
qed

text \<open>
  C9. For the months 13 and 14 every read of the table is inside the 15-element array
  (\<open>compute_defined\<close>), and for a day that is not negative the program should print the
  number of days of the year: 365, or 366 in a leap year. From the year 0 on it does
  (\<open>month_13_14_nonneg_year\<close>). For the leap year -4 it prints 365.
\<close>

theorem total_days_fails_negative_leap_year:
  "compute (- 4) 13 0 = Some 365 \<and> compute (- 4) 14 0 = Some 365
    \<and> spec_days_in_year (- 4) = 366"
  by (simp add: main_defs int_defs table_defs sum_months.simps spec_days_in_year_def
      spec_isLeap_def days_before_def daysIn_def upto_rec1)

subsection \<open>Monotonicity in the day\<close>

text \<open>
  C10. For a fixed year and a fixed month from 1 to 12 the result does not decrease when
  the day grows, over all \<open>int\<close> days: it grows by exactly 1 per day while the day is
  below the month's length, and it is the result of the month's last day for every day
  from the month's length on.
\<close>

theorem result_monotone_in_day:
  assumes "1 \<le> m" "m \<le> 12"
  shows "(\<forall>d1 d2. is_int d1 \<and> is_int d2 \<and> d1 \<le> d2 \<longrightarrow>
            (\<exists>r1 r2. compute y m d1 = Some r1 \<and> compute y m d2 = Some r2 \<and> r1 \<le> r2))
    \<and> (\<forall>d. is_int d \<and> d < daysIn m (leap_cond y) \<longrightarrow>
            (\<exists>r. compute y m d = Some r \<and> compute y m (d + 1) = Some (r + 1)))
    \<and> (\<forall>d. daysIn m (leap_cond y) \<le> d \<longrightarrow>
            compute y m d = compute y m (daysIn m (leap_cond y)))"
proof (intro conjI allI impI)
  fix d1 d2 :: int
  assume "is_int d1 \<and> is_int d2 \<and> d1 \<le> d2"
  then have lo: "INT_MIN \<le> d1" "INT_MIN \<le> d2" and le: "d1 \<le> d2"
    by (simp_all add: is_int_def)
  from le show "\<exists>r1 r2. compute y m d1 = Some r1 \<and> compute y m d2 = Some r2 \<and> r1 \<le> r2"
    by (simp add: compute_closed_form [OF assms lo(1)] compute_closed_form [OF assms lo(2)])
next
  fix d :: int
  assume "is_int d \<and> d < daysIn m (leap_cond y)"
  then have lo: "INT_MIN \<le> d" "INT_MIN \<le> d + 1" and lt: "d < daysIn m (leap_cond y)"
    by (simp_all add: is_int_def)
  from lt show "\<exists>r. compute y m d = Some r \<and> compute y m (d + 1) = Some (r + 1)"
    by (simp add: compute_closed_form [OF assms lo(1)] compute_closed_form [OF assms lo(2)])
next
  fix d :: int
  assume "daysIn m (leap_cond y) \<le> d"
  then show "compute y m d = compute y m (daysIn m (leap_cond y))"
    by (simp add: compute_overflow_case [OF assms])
qed

theorem result_monotone_in_day_witness:
  "(1::int) \<le> 2 \<and> (2::int) \<le> 12 \<and> is_int 27 \<and> (27::int) < daysIn 2 (leap_cond 2023)
    \<and> compute 2023 2 27 = Some 58 \<and> compute 2023 2 (27 + 1) = Some 59
    \<and> compute 2023 2 29 = compute 2023 2 28"
proof -
  have h: "(1::int) \<le> 2" "(2::int) \<le> 12" by simp_all
  have l: "daysIn 2 (leap_cond 2023) = 28"
    by (simp add: daysIn_def leap_cond_def signed_modulo_int_def)
  have i: "is_int 27" by (simp add: int_defs)
  have c: "compute 2023 2 27 = Some 58"
    by (simp add: main_defs int_defs table_defs sum_months.simps)
  from result_monotone_in_day [OF h, of 2023]
  have step: "\<And>d. is_int d \<and> d < daysIn 2 (leap_cond 2023) \<Longrightarrow>
      \<exists>r. compute 2023 2 d = Some r \<and> compute 2023 2 (d + 1) = Some (r + 1)"
    and const: "\<And>d. daysIn 2 (leap_cond 2023) \<le> d \<Longrightarrow>
      compute 2023 2 d = compute 2023 2 (daysIn 2 (leap_cond 2023))"
    by blast+
  from step [of 27] i l c have s: "compute 2023 2 (27 + 1) = Some 59" by auto
  from const [of 29] l have k: "compute 2023 2 29 = compute 2023 2 28" by simp
  from h i l c s k show ?thesis by simp
qed

end
